theory Spec2Isabelle
  imports Main
begin

section \<open>Data model (types.ts)\<close>

text \<open>
  An optional property of a TypeScript interface is an \<open>option\<close>: \<open>None\<close> stands for
  a property that is absent, \<open>undefined\<close> or \<open>null\<close> (the code only tests such
  properties for truthiness, and JSON drops an \<open>undefined\<close> one). Arrays and objects are truthy in
  JavaScript, the empty array included, so \<open>Some xs\<close> is truthy for every \<open>xs\<close>.
\<close>

datatype MindMapNodeType = ROOT | MAIN_TOPIC | SUB_TOPIC | DETAIL

datatype NodeStatus = StatusTask | StatusFlashcard | StatusSummary

record Flashcard =
  front :: string
  fc_back :: string

record Task =
  description :: string
  completed :: bool
  dueDate :: "string option"

record Metadata =
  pros :: "string list option"
  cons :: "string list option"
  questions :: "string list option"
  flashcard :: "Flashcard option"
  summary :: "string option"
  task :: "Task option"

text \<open>
  \<open>MindMapNode\<close> is recursive through \<open>children\<close>, so it is a datatype with one
  selector per field; \<open>id\<close>, \<open>text\<close> and \<open>type\<close> are written \<open>node_id\<close>,
  \<open>node_text\<close> and \<open>node_type\<close>.
\<close>

datatype MindMapNode = MindMapNode
  (node_id: string)
  (node_text: string)
  (children: "MindMapNode list")
  (parentId: "string option")
  (isExpanded: bool)
  (node_type: MindMapNodeType)
  (tags: "string list")
  (status: "NodeStatus option")
  (metadata: "Metadata option")

text \<open>Assignments to one field of a node object.\<close>

fun setChildren :: "MindMapNode \<Rightarrow> MindMapNode list \<Rightarrow> MindMapNode" where
  "setChildren (MindMapNode i tx cs p e ty tg st md) cs' = MindMapNode i tx cs' p e ty tg st md"

fun setText :: "MindMapNode \<Rightarrow> string \<Rightarrow> MindMapNode" where
  "setText (MindMapNode i tx cs p e ty tg st md) tx' = MindMapNode i tx' cs p e ty tg st md"

fun setIsExpanded :: "MindMapNode \<Rightarrow> bool \<Rightarrow> MindMapNode" where
  "setIsExpanded (MindMapNode i tx cs p e ty tg st md) e' = MindMapNode i tx cs p e' ty tg st md"

fun setStatus :: "MindMapNode \<Rightarrow> NodeStatus option \<Rightarrow> MindMapNode" where
  "setStatus (MindMapNode i tx cs p e ty tg st md) st' = MindMapNode i tx cs p e ty tg st' md"

fun setMetadata :: "MindMapNode \<Rightarrow> Metadata option \<Rightarrow> MindMapNode" where
  "setMetadata (MindMapNode i tx cs p e ty tg st md) md' = MindMapNode i tx cs p e ty tg st md'"

text \<open>\<open>AIMapNode\<close>: the nested-topic shape the AI service returns and receives.\<close>

datatype AIMapNode = AIMapNode
  (title: string)
  (subtopics: "AIMapNode list option")
  (ai_pros: "string list option")
  (ai_cons: "string list option")
  (ai_questions: "string list option")

section \<open>Tree utilities (App.tsx)\<close>

lemma size_children [termination_simp]:
  "size_list size (children n) < size n"
  by (cases n) simp

lemma size_member [termination_simp]:
  "n \<in> set ns \<Longrightarrow> size n < Suc (size_list size ns)"
  by (induction ns) auto

text \<open>
  \<open>findNodeById\<close>: the \<open>for\<close> loop with its two early returns. A found node is an
  object, hence truthy, so \<open>if (found)\<close> is the test for \<open>Some\<close>.
\<close>

function findNodeById :: "MindMapNode list \<Rightarrow> string \<Rightarrow> MindMapNode option" where
  "findNodeById [] i = None"
| "findNodeById (node # rest) i =
     (if node_id node = i then Some node
      else (case findNodeById (children node) i of
              Some found \<Rightarrow> Some found
            | None \<Rightarrow> findNodeById rest i))"
  by pat_completeness auto
termination
proof (relation "measure (\<lambda>(ns, i). size_list size ns)")
  show "wf (measure (\<lambda>(ns, i). size_list size ns))" by simp
next
  fix node :: MindMapNode and rest :: "MindMapNode list" and i :: string
  from size_children [of node]
  show "((children node, i), (node # rest, i)) \<in> measure (\<lambda>(ns, i). size_list size ns)"
    by simp
next
  fix node :: MindMapNode and rest :: "MindMapNode list" and i :: string
  show "((rest, i), (node # rest, i)) \<in> measure (\<lambda>(ns, i). size_list size ns)"
    by simp
qed

text \<open>
  \<open>updateNodeRecursive\<close>: \<open>updateFn\<close> mutates a shallow copy of the matching node;
  it is modelled by the function from the copy to the mutated copy. The children of
  a matching node are not visited.
\<close>

function updateNodeRecursive ::
  "MindMapNode list \<Rightarrow> string \<Rightarrow> (MindMapNode \<Rightarrow> MindMapNode) \<Rightarrow> MindMapNode list" where
  "updateNodeRecursive nodes targetId updateFn =
     map (\<lambda>node.
            if node_id node = targetId then updateFn node
            else setChildren node (updateNodeRecursive (children node) targetId updateFn))
         nodes"
  by pat_completeness auto
termination
proof (relation "measure (\<lambda>(ns, t, f). size_list size ns)")
  show "wf (measure (\<lambda>(ns, t, f). size_list size ns))" by simp
next
  fix nodes :: "MindMapNode list" and targetId :: string
    and updateFn :: "MindMapNode \<Rightarrow> MindMapNode" and x :: MindMapNode
  assume "x \<in> set nodes"
  then have "size x < Suc (size_list size nodes)" by (rule size_member)
  with size_children [of x]
  show "((children x, targetId, updateFn), (nodes, targetId, updateFn))
          \<in> measure (\<lambda>(ns, t, f). size_list size ns)"
    by simp
qed

function deleteNodeRecursive :: "MindMapNode list \<Rightarrow> string \<Rightarrow> MindMapNode list" where
  "deleteNodeRecursive nodes targetId =
     map (\<lambda>node. setChildren node (deleteNodeRecursive (children node) targetId))
         (filter (\<lambda>node. node_id node \<noteq> targetId) nodes)"
  by pat_completeness auto
termination
proof (relation "measure (\<lambda>(ns, t). size_list size ns)")
  show "wf (measure (\<lambda>(ns, t). size_list size ns))" by simp
next
  fix nodes :: "MindMapNode list" and targetId :: string and x :: MindMapNode
  assume "x \<in> set (filter (\<lambda>node. node_id node \<noteq> targetId) nodes)"
  then have "x \<in> set nodes" by simp
  then have "size x < Suc (size_list size nodes)" by (rule size_member)
  with size_children [of x]
  show "((children x, targetId), (nodes, targetId)) \<in> measure (\<lambda>(ns, t). size_list size ns)"
    by simp
qed

declare updateNodeRecursive.simps [simp del] deleteNodeRecursive.simps [simp del]

section \<open>AI schema adapter (App.tsx)\<close>

text \<open>
  \<open>convertAIMapNodeToMindMapNode\<close> calls \<open>uuidv4()\<close> once per node, for the node
  before its subtopics. The generator is a parameter: its \<open>k\<close>-th call returns
  \<open>uuidv4 k\<close>, and the function takes the number of calls made so far and returns it
  updated. \<open>level\<close> starts at \<open>0\<close> and only grows by one, so it is a \<open>nat\<close>.
  \<open>convertAIMapNodes\<close> is the \<open>map\<close> over a list of AI nodes, used for the subtopics
  and, by the handlers, for the roots (parent \<open>null\<close>, level \<open>0\<close>).
\<close>

definition emptyMetadata :: Metadata where
  "emptyMetadata =
     \<lparr>pros = None, cons = None, questions = None, flashcard = None, summary = None, task = None\<rparr>"

fun convertAIMapNodeToMindMapNode ::
    "(nat \<Rightarrow> string) \<Rightarrow> AIMapNode \<Rightarrow> string option \<Rightarrow> nat \<Rightarrow> nat \<Rightarrow> MindMapNode \<times> nat"
  and convertAIMapNodes ::
    "(nat \<Rightarrow> string) \<Rightarrow> AIMapNode list \<Rightarrow> string option \<Rightarrow> nat \<Rightarrow> nat \<Rightarrow> MindMapNode list \<times> nat"
where
  "convertAIMapNodeToMindMapNode uuidv4 (AIMapNode ttl subs prs cns qs) parent level k =
     (let nodeType = (if level = 0 then MAIN_TOPIC else if level = 1 then SUB_TOPIC else DETAIL);
          newId = uuidv4 k;
          md0 = emptyMetadata;
          md1 = (if prs \<noteq> None \<and> cns \<noteq> None then md0\<lparr>pros := prs, cons := cns\<rparr> else md0);
          md2 = (if qs \<noteq> None then md1\<lparr>questions := qs\<rparr> else md1);
          (kids, k') = (case subs of
                          None \<Rightarrow> ([], Suc k)
                        | Some ss \<Rightarrow> convertAIMapNodes uuidv4 ss (Some newId) (level + 1) (Suc k))
      in (MindMapNode newId ttl kids parent True nodeType [] None (Some md2), k'))"
| "convertAIMapNodes uuidv4 [] parent level k = ([], k)"
| "convertAIMapNodes uuidv4 (a # as) parent level k =
     (let (n, k1) = convertAIMapNodeToMindMapNode uuidv4 a parent level k;
          (ns, k2) = convertAIMapNodes uuidv4 as parent level k1
      in (n # ns, k2))"

fun convertMindMapNodeToAIMapNode :: "MindMapNode \<Rightarrow> AIMapNode" where
  "convertMindMapNodeToAIMapNode (MindMapNode i tx cs p e ty tg st md) =
     (let mdPros = (case md of None \<Rightarrow> None | Some m \<Rightarrow> pros m);
          mdCons = (case md of None \<Rightarrow> None | Some m \<Rightarrow> cons m);
          mdQuestions = (case md of None \<Rightarrow> None | Some m \<Rightarrow> questions m);
          subs = map convertMindMapNodeToAIMapNode cs;
          (aiPros, aiCons) =
             (if mdPros \<noteq> None \<or> mdCons \<noteq> None then (mdPros, mdCons) else (None, None));
          aiQuestions = (if mdQuestions \<noteq> None then mdQuestions else None)
      in AIMapNode tx (Some subs) aiPros aiCons aiQuestions)"

section \<open>What the round trip is observed on\<close>

text \<open>
  The content of a tree: at every node the title (or text) and the pros, cons and
  questions, and the contents of the subtrees in order (absent \<open>subtopics\<close> read as
  the empty list). \<open>contentOf\<close> reads an AI-shape tree, \<open>storedContentOf\<close> a node
  tree (pros, cons and questions from its metadata). \<open>pairedContentOf\<close> is
  \<open>contentOf\<close> with pros and cons kept only at the nodes that carry both.
\<close>

datatype Content =
  Content string "string list option" "string list option" "string list option" "Content list"

fun contentOf :: "AIMapNode \<Rightarrow> Content" where
  "contentOf (AIMapNode ttl subs prs cns qs) =
     Content ttl prs cns qs (case subs of None \<Rightarrow> [] | Some ss \<Rightarrow> map contentOf ss)"

fun storedContentOf :: "MindMapNode \<Rightarrow> Content" where
  "storedContentOf (MindMapNode i tx cs p e ty tg st md) =
     Content tx (case md of None \<Rightarrow> None | Some m \<Rightarrow> pros m)
                (case md of None \<Rightarrow> None | Some m \<Rightarrow> cons m)
                (case md of None \<Rightarrow> None | Some m \<Rightarrow> questions m)
                (map storedContentOf cs)"

fun pairedContentOf :: "AIMapNode \<Rightarrow> Content" where
  "pairedContentOf (AIMapNode ttl subs prs cns qs) =
     Content ttl (if prs \<noteq> None \<and> cns \<noteq> None then prs else None)
                 (if prs \<noteq> None \<and> cns \<noteq> None then cns else None)
                 qs
                 (case subs of None \<Rightarrow> [] | Some ss \<Rightarrow> map pairedContentOf ss)"

fun wellPaired :: "AIMapNode \<Rightarrow> bool" where
  "wellPaired (AIMapNode ttl subs prs cns qs) =
     ((prs = None) = (cns = None) \<and>
      (case subs of None \<Rightarrow> True | Some ss \<Rightarrow> list_all wellPaired ss))"

section \<open>History-backed state store (App.tsx)\<close>

text \<open>
  \<open>nodes\<close> is declared \<open>MindMapNode[]\<close>, but \<open>UNDO\<close> and \<open>REDO\<close> assign it
  \<open>state.history[newHistoryPointer]\<close>, which is \<open>undefined\<close> when the index is out of
  range: \<open>None\<close> is that value. The entries of \<open>history\<close> are always arrays.
\<close>

record MindMapState =
  nodes :: "MindMapNode list option"
  history :: "MindMapNode list list"
  historyPointer :: int

text \<open>
  The patch of \<open>UPDATE_NODE_METADATA\<close> is a \<open>Partial\<close> of the metadata. Object spread
  copies every key the patch has, also one whose value is \<open>undefined\<close>: for each key,
  \<open>None\<close> says the patch has no such key and \<open>Some v\<close> that it has it with value \<open>v\<close>.
\<close>

record MetadataPatch =
  patch_pros :: "string list option option"
  patch_cons :: "string list option option"
  patch_questions :: "string list option option"
  patch_flashcard :: "Flashcard option option"
  patch_summary :: "string option option"
  patch_task :: "Task option option"

datatype MindMapAction =
    SET_NODES "MindMapNode list"
  | ADD_NODE "string option" MindMapNode
  | UPDATE_NODE_TEXT string string
  | DELETE_NODE string
  | TOGGLE_EXPAND string
  | UPDATE_NODE_METADATA string MetadataPatch "NodeStatus option"
  | UNDO
  | REDO

datatype js_error = TypeError | SyntaxError

text \<open>\<open>xs.slice(0, e)\<close>: a negative \<open>e\<close> counts from the end of the array.\<close>

definition slice0 :: "'a list \<Rightarrow> int \<Rightarrow> 'a list" where
  "slice0 xs e =
     (let len = int (length xs);
          k = (if e < 0 then max (len + e) 0 else min e len)
      in take (nat k) xs)"

text \<open>\<open>xs[i]\<close>: \<open>undefined\<close> outside the array.\<close>

definition at_index :: "'a list \<Rightarrow> int \<Rightarrow> 'a option" where
  "at_index xs i = (if 0 \<le> i \<and> i < int (length xs) then Some (xs ! nat i) else None)"

text \<open>
  \<open>JSON.parse(JSON.stringify(nodes))\<close>: every field of a node is JSON data and a
  property that is \<open>undefined\<close> is dropped, which \<open>None\<close> already stands for, so the
  copy equals the original. \<open>JSON.stringify(undefined)\<close> is \<open>undefined\<close> and
  \<open>JSON.parse\<close> of it throws a \<open>SyntaxError\<close>.
\<close>

definition jsonDeepCopy :: "MindMapNode list option \<Rightarrow> js_error + MindMapNode list" where
  "jsonDeepCopy v = (case v of None \<Rightarrow> Inl SyntaxError | Some ns \<Rightarrow> Inr ns)"

text \<open>
  \<open>findNodeById\<close> returns a reference into the copied forest and \<open>ADD_NODE\<close> writes
  through it. \<open>storeAtFound ns i v\<close> is the forest after the object that
  \<open>findNodeById ns i\<close> returns has become \<open>v\<close>; it follows the search order of
  \<open>findNodeById\<close>.
\<close>

function storeAtFound :: "MindMapNode list \<Rightarrow> string \<Rightarrow> MindMapNode \<Rightarrow> MindMapNode list" where
  "storeAtFound [] i v = []"
| "storeAtFound (node # rest) i v =
     (if node_id node = i then v # rest
      else (case findNodeById (children node) i of
              Some found \<Rightarrow> setChildren node (storeAtFound (children node) i v) # rest
            | None \<Rightarrow> node # storeAtFound rest i v))"
  by pat_completeness auto
termination
proof (relation "measure (\<lambda>(ns, i, v). size_list size ns)")
  show "wf (measure (\<lambda>(ns, i, v). size_list size ns))" by simp
next
  fix node :: MindMapNode and rest :: "MindMapNode list" and i :: string and v :: MindMapNode
  from size_children [of node]
  show "((children node, i, v), (node # rest, i, v)) \<in> measure (\<lambda>(ns, i, v). size_list size ns)"
    by simp
next
  fix node :: MindMapNode and rest :: "MindMapNode list" and i :: string and v :: MindMapNode
  show "((rest, i, v), (node # rest, i, v)) \<in> measure (\<lambda>(ns, i, v). size_list size ns)"
    by simp
qed

text \<open>
  The three statements that end every mutating case of the reducer: cut the history
  after the pointer, push the new forest, point at it.
\<close>

definition pushSnapshot :: "MindMapState \<Rightarrow> MindMapNode list \<Rightarrow> MindMapState" where
  "pushSnapshot state newNodes =
     (let newHistory = slice0 (history state) (historyPointer state + 1) @ [newNodes]
      in \<lparr>nodes = Some newNodes, history = newHistory,
          historyPointer = int (length newHistory) - 1\<rparr>)"

text \<open>The mutators handed to \<open>updateNodeRecursive\<close>.\<close>

definition mergeMetadata :: "Metadata option \<Rightarrow> MetadataPatch \<Rightarrow> Metadata" where
  "mergeMetadata old patch =
     (let base = (case old of None \<Rightarrow> emptyMetadata | Some m \<Rightarrow> m)
      in \<lparr>pros = (case patch_pros patch of None \<Rightarrow> pros base | Some v \<Rightarrow> v),
          cons = (case patch_cons patch of None \<Rightarrow> cons base | Some v \<Rightarrow> v),
          questions = (case patch_questions patch of None \<Rightarrow> questions base | Some v \<Rightarrow> v),
          flashcard = (case patch_flashcard patch of None \<Rightarrow> flashcard base | Some v \<Rightarrow> v),
          summary = (case patch_summary patch of None \<Rightarrow> summary base | Some v \<Rightarrow> v),
          task = (case patch_task patch of None \<Rightarrow> task base | Some v \<Rightarrow> v)\<rparr>)"

definition updateMetadataFn :: "MetadataPatch \<Rightarrow> NodeStatus option \<Rightarrow> MindMapNode \<Rightarrow> MindMapNode" where
  "updateMetadataFn patch st node =
     (let node1 = setMetadata node (Some (mergeMetadata (metadata node) patch))
      in (case st of None \<Rightarrow> node1 | Some s \<Rightarrow> setStatus node1 (Some s)))"

text \<open>
  The reducer. A case that reads \<open>state.nodes\<close> as an array throws when it is
  \<open>undefined\<close>: \<open>nodes.map\<close> and \<open>nodes.filter\<close> raise a \<open>TypeError\<close>.
\<close>

fun mindMapReducer :: "MindMapState \<Rightarrow> MindMapAction \<Rightarrow> js_error + MindMapState" where
  "mindMapReducer state (SET_NODES payload) = Inr (pushSnapshot state payload)"
| "mindMapReducer state (ADD_NODE parent newNode) =
     (case jsonDeepCopy (nodes state) of
        Inl e \<Rightarrow> Inl e
      | Inr newNodes \<Rightarrow>
          Inr (pushSnapshot state
            (case parent of
               None \<Rightarrow> newNodes @ [newNode]
             | Some pid \<Rightarrow>
                 (case findNodeById newNodes pid of
                    Some parentNode \<Rightarrow>
                      storeAtFound newNodes pid
                        (setIsExpanded
                           (setChildren parentNode (children parentNode @ [newNode])) True)
                  | None \<Rightarrow> newNodes))))"
| "mindMapReducer state (UPDATE_NODE_TEXT nodeId newText) =
     (case nodes state of
        None \<Rightarrow> Inl TypeError
      | Some ns \<Rightarrow>
          Inr (pushSnapshot state
                 (updateNodeRecursive ns nodeId (\<lambda>node. setText node newText))))"
| "mindMapReducer state (DELETE_NODE nodeId) =
     (case nodes state of
        None \<Rightarrow> Inl TypeError
      | Some ns \<Rightarrow> Inr (pushSnapshot state (deleteNodeRecursive ns nodeId)))"
| "mindMapReducer state (TOGGLE_EXPAND nodeId) =
     (case nodes state of
        None \<Rightarrow> Inl TypeError
      | Some ns \<Rightarrow>
          Inr (pushSnapshot state
                 (updateNodeRecursive ns nodeId
                    (\<lambda>node. setIsExpanded node (\<not> isExpanded node)))))"
| "mindMapReducer state (UPDATE_NODE_METADATA nodeId patch st) =
     (case nodes state of
        None \<Rightarrow> Inl TypeError
      | Some ns \<Rightarrow>
          Inr (pushSnapshot state
                 (updateNodeRecursive ns nodeId (updateMetadataFn patch st))))"
| "mindMapReducer state UNDO =
     (let newHistoryPointer = max 0 (historyPointer state - 1)
      in Inr (state\<lparr>nodes := at_index (history state) newHistoryPointer,
                    historyPointer := newHistoryPointer\<rparr>))"
| "mindMapReducer state REDO =
     (let newHistoryPointer = min (int (length (history state)) - 1) (historyPointer state + 1)
      in Inr (state\<lparr>nodes := at_index (history state) newHistoryPointer,
                    historyPointer := newHistoryPointer\<rparr>))"

text \<open>The state \<open>useReducer\<close> starts from.\<close>

definition initialState :: MindMapState where
  "initialState = \<lparr>nodes = Some [], history = [], historyPointer = - 1\<rparr>"

text \<open>The states of the store: what dispatching actions reaches from the initial state.\<close>

inductive reachable :: "MindMapState \<Rightarrow> bool" where
  reachable_initial: "reachable initialState"
| reachable_step: "reachable s \<Longrightarrow> mindMapReducer s a = Inr s' \<Longrightarrow> reachable s'"

fun isMutating :: "MindMapAction \<Rightarrow> bool" where
  "isMutating UNDO = False"
| "isMutating REDO = False"
| "isMutating a = True"

text \<open>The invariant of the store.\<close>

definition wellFormed :: "MindMapState \<Rightarrow> bool" where
  "wellFormed s =
     (0 \<le> historyPointer s \<and> historyPointer s < int (length (history s)) \<and>
      nodes s = Some (history s ! nat (historyPointer s)))"

definition emptyHistory :: "MindMapState \<Rightarrow> bool" where
  "emptyHistory s = (history s = [] \<and> (historyPointer s = - 1 \<or> historyPointer s = 0))"

section \<open>What deletion is observed on\<close>

text \<open>
  The entries of a forest, in preorder: for every node the ids on the path from its
  root down to the node itself, and the node without its children.
\<close>

function entries :: "string list \<Rightarrow> MindMapNode list \<Rightarrow> (string list \<times> MindMapNode) list" where
  "entries anc ns =
     concat (map (\<lambda>n. (anc @ [node_id n], setChildren n [])
                        # entries (anc @ [node_id n]) (children n)) ns)"
  by pat_completeness auto
termination
proof (relation "measure (\<lambda>(anc, ns). size_list size ns)")
  show "wf (measure (\<lambda>(anc, ns). size_list size ns))" by simp
next
  fix anc :: "string list" and ns :: "MindMapNode list" and x :: MindMapNode
  assume "x \<in> set ns"
  then have "size x < Suc (size_list size ns)" by (rule size_member)
  with size_children [of x]
  show "((anc @ [node_id x], children x), (anc, ns))
          \<in> measure (\<lambda>(anc, ns). size_list size ns)"
    by simp
qed

section \<open>What adding a node is observed on\<close>


text \<open>The parent after \<open>ADD_NODE\<close> has pushed the new node and expanded it.\<close>

definition withNewChild :: "MindMapNode \<Rightarrow> MindMapNode \<Rightarrow> MindMapNode" where
  "withNewChild parent newNode =
     setIsExpanded (setChildren parent (children parent @ [newNode])) True"

section \<open>What the typing of nodes is observed on\<close>

definition typeForDepth :: "nat \<Rightarrow> MindMapNodeType" where
  "typeForDepth d = (if d = 0 then MAIN_TOPIC else if d = 1 then SUB_TOPIC else DETAIL)"

fun typedByDepth :: "nat \<Rightarrow> MindMapNode \<Rightarrow> bool" where
  "typedByDepth d (MindMapNode i tx cs p e ty tg st md) =
     (ty = typeForDepth d \<and> list_all (typedByDepth (Suc d)) cs)"

text \<open>The id and the type of every node of a forest, in preorder.\<close>

function idTypes :: "MindMapNode list \<Rightarrow> (string \<times> MindMapNodeType) list" where
  "idTypes ns = concat (map (\<lambda>n. (node_id n, node_type n) # idTypes (children n)) ns)"
  by pat_completeness auto
termination
proof (relation "measure (size_list size)")
  show "wf (measure (size_list size :: MindMapNode list \<Rightarrow> nat))" by simp
next
  fix ns :: "MindMapNode list" and x :: MindMapNode
  assume "x \<in> set ns"
  then have "size x < Suc (size_list size ns)" by (rule size_member)
  with size_children [of x]
  show "(children x, ns) \<in> measure (size_list size)" by simp
qed

text \<open>The nodes an action brings into the forest.\<close>

fun createdBy :: "MindMapAction \<Rightarrow> MindMapNode list" where
  "createdBy (SET_NODES payload) = payload"
| "createdBy (ADD_NODE parent newNode) = [newNode]"
| "createdBy a = []"

text \<open>A mutator that leaves the id, the type and the children of a node alone.\<close>

definition keepsIdentity :: "(MindMapNode \<Rightarrow> MindMapNode) \<Rightarrow> bool" where
  "keepsIdentity f =
     (\<forall>n. node_id (f n) = node_id n \<and> node_type (f n) = node_type n \<and>
          children (f n) = children n)"

section \<open>Editor session (App.tsx)\<close>

text \<open>
  The state of the \<open>App\<close> component that the handlers below read and write: the store,
  the selected node, the busy flag, the alerts shown so far, and how many identifiers
  \<open>uuidv4\<close> has handed out (the \<open>k\<close>-th call returns \<open>uuidv4 k\<close>).
\<close>

record Session =
  mindMapState :: MindMapState
  selectedNode :: "MindMapNode option"
  isLoading :: bool
  alerts :: "string list"
  nextUuid :: nat

definition dispatch :: "Session \<Rightarrow> MindMapAction \<Rightarrow> js_error + Session" where
  "dispatch sess a =
     (case mindMapReducer (mindMapState sess) a of
        Inl e \<Rightarrow> Inl e
      | Inr st \<Rightarrow> Inr (sess\<lparr>mindMapState := st\<rparr>))"

definition handleAddChild :: "(nat \<Rightarrow> string) \<Rightarrow> Session \<Rightarrow> string \<Rightarrow> js_error + Session" where
  "handleAddChild uuidv4 sess parent =
     (let newNode = MindMapNode (uuidv4 (nextUuid sess)) ''New Idea'' [] (Some parent) True
                      DETAIL [] None None
      in dispatch (sess\<lparr>nextUuid := Suc (nextUuid sess)\<rparr>) (ADD_NODE (Some parent) newNode))"

text \<open>\<open>selectedNode?.id === nodeId\<close> is false when nothing is selected.\<close>

definition handleDeleteNode :: "Session \<Rightarrow> string \<Rightarrow> js_error + Session" where
  "handleDeleteNode sess nodeId =
     (case dispatch sess (DELETE_NODE nodeId) of
        Inl e \<Rightarrow> Inl e
      | Inr sess1 \<Rightarrow>
          Inr (if map_option node_id (selectedNode sess) = Some nodeId
               then sess1\<lparr>selectedNode := None\<rparr> else sess1))"

section \<open>AI service (services/geminiService.ts)\<close>

datatype MindMapMode = STUDY | PROJECT_PLANNING | DEBATE | GENERAL










section \<open>AI intents of the editor session (App.tsx)\<close>






section \<open>Examples\<close>

text \<open>An identifier generator for the examples: \<open>id\<close>, \<open>idx\<close>, \<open>idxx\<close>, ...\<close>

definition exampleUuid :: "nat \<Rightarrow> string" where
  "exampleUuid k = ''id'' @ replicate k (CHR ''x'')"

definition leafB :: MindMapNode where
  "leafB = MindMapNode ''b'' ''B'' [] (Some ''a'') True SUB_TOPIC [] None None"

definition nodeA :: MindMapNode where
  "nodeA = MindMapNode ''a'' ''A'' [leafB] None False MAIN_TOPIC [] None None"

definition leafC :: MindMapNode where
  "leafC = MindMapNode ''c'' ''C'' [] None True MAIN_TOPIC [] None None"

definition debateTopic :: AIMapNode where
  "debateTopic =
     AIMapNode ''Remote work''
       (Some [AIMapNode ''Focus'' None None None (Some [''For whom?'']),
              AIMapNode ''Cost'' (Some []) (Some []) (Some [''no office'']) None])
       (Some [''flexible'']) (Some [''isolating'']) None"

definition exampleStore :: MindMapState where
  "exampleStore = \<lparr>nodes = Some [nodeA], history = [[], [nodeA]], historyPointer = 1\<rparr>"

definition undoneStore :: MindMapState where
  "undoneStore = \<lparr>nodes = Some [], history = [[], [nodeA]], historyPointer = 0\<rparr>"

definition sessionC :: Session where
  "sessionC = \<lparr>mindMapState = \<lparr>nodes = Some [leafC], history = [[leafC]], historyPointer = 0\<rparr>,
               selectedNode = None, isLoading = False, alerts = [], nextUuid = 0\<rparr>"

definition sessionAB :: Session where
  "sessionAB = \<lparr>mindMapState = exampleStore, selectedNode = Some leafB, isLoading = False,
                alerts = [], nextUuid = 0\<rparr>"






section \<open>Lookup misses are silent no-ops\<close>

lemma setChildren_children [simp]: "setChildren n (children n) = n"
  by (cases n) simp

lemma node_id_setChildren [simp]: "node_id (setChildren n cs) = node_id n"
  by (cases n) simp

lemma children_setChildren [simp]: "children (setChildren n cs) = cs"
  by (cases n) simp

lemma findNodeById_None_member:
  "findNodeById ns i = None \<Longrightarrow> n \<in> set ns \<Longrightarrow>
     node_id n \<noteq> i \<and> findNodeById (children n) i = None"
  by (induction ns) (auto split: if_splits option.splits)

lemma updateNodeRecursive_absent:
  "findNodeById ns i = None \<Longrightarrow> updateNodeRecursive ns i f = ns"
proof (induction ns i f rule: updateNodeRecursive.induct)
  case (1 nodes targetId updateFn)
  have "(if node_id n = targetId then updateFn n
         else setChildren n (updateNodeRecursive (children n) targetId updateFn)) = n"
    if "n \<in> set nodes" for n
  proof -
    from findNodeById_None_member [OF "1.prems" that]
    have ne: "node_id n \<noteq> targetId" and sub: "findNodeById (children n) targetId = None"
      by simp_all
    from "1.IH" [OF that ne sub] ne show ?thesis by simp
  qed
  then have "map (\<lambda>node. if node_id node = targetId then updateFn node
            else setChildren node (updateNodeRecursive (children node) targetId updateFn))
         nodes = nodes"
    by (simp add: map_idI)
  then show ?case by (subst updateNodeRecursive.simps)
qed

lemma deleteNodeRecursive_absent:
  "findNodeById ns i = None \<Longrightarrow> deleteNodeRecursive ns i = ns"
proof (induction ns i rule: deleteNodeRecursive.induct)
  case (1 nodes targetId)
  have keep: "filter (\<lambda>node. node_id node \<noteq> targetId) nodes = nodes"
    using findNodeById_None_member [OF "1.prems"] by (simp add: filter_id_conv)
  have "setChildren n (deleteNodeRecursive (children n) targetId) = n"
    if "n \<in> set nodes" for n
  proof -
    from that keep have mem: "n \<in> set (filter (\<lambda>node. node_id node \<noteq> targetId) nodes)"
      by simp
    from findNodeById_None_member [OF "1.prems" that]
    have "findNodeById (children n) targetId = None" by simp
    from "1.IH" [OF mem this] show ?thesis by simp
  qed
  then have "map (\<lambda>node. setChildren node (deleteNodeRecursive (children node) targetId))
         nodes = nodes"
    by (simp add: map_idI)
  with keep show ?case by (subst deleteNodeRecursive.simps) simp
qed

text \<open>
  C5. For every forest \<open>F\<close> and every id that \<open>findNodeById\<close> does not find in \<open>F\<close>,
  \<open>updateNodeRecursive\<close> (with any mutator) and \<open>deleteNodeRecursive\<close> return a forest
  equal to \<open>F\<close>: the miss is a silent no-op.
\<close>

theorem absent_id_is_noop:
  "findNodeById F i = None \<Longrightarrow>
     updateNodeRecursive F i f = F \<and> deleteNodeRecursive F i = F"
  by (simp add: updateNodeRecursive_absent deleteNodeRecursive_absent)

theorem absent_id_is_noop_witness:
  "findNodeById [nodeA, leafC] ''z'' = None \<and>
   updateNodeRecursive [nodeA, leafC] ''z'' (\<lambda>n. setText n ''X'') = [nodeA, leafC] \<and>
   deleteNodeRecursive [nodeA, leafC] ''z'' = [nodeA, leafC]"
proof -
  have miss: "findNodeById [nodeA, leafC] ''z'' = None"
    by (simp add: nodeA_def leafB_def leafC_def)
  from miss absent_id_is_noop [OF miss, of "\<lambda>n. setText n ''X''"] show ?thesis by simp
qed

section \<open>Export after import\<close>

lemma export_content: "contentOf (convertMindMapNodeToAIMapNode n) = storedContentOf n"
  by (induction n rule: convertMindMapNodeToAIMapNode.induct) (auto simp: Let_def)

lemma import_list_content:
  assumes "\<And>a p l k. a \<in> set xs \<Longrightarrow>
             storedContentOf (fst (convertAIMapNodeToMindMapNode g a p l k)) = pairedContentOf a"
  shows "map storedContentOf (fst (convertAIMapNodes g xs p l k)) = map pairedContentOf xs"
  using assms
proof (induction xs arbitrary: k)
  case Nil
  then show ?case by simp
next
  case (Cons a as)
  have hd: "storedContentOf (fst (convertAIMapNodeToMindMapNode g a p l k)) = pairedContentOf a"
    by (rule Cons.prems) simp
  have tl: "map storedContentOf (fst (convertAIMapNodes g as p l k')) = map pairedContentOf as"
    for k'
    by (rule Cons.IH) (simp add: Cons.prems)
  from hd tl show ?case
    by (simp add: split_beta Let_def)
qed

lemma import_content:
  "storedContentOf (fst (convertAIMapNodeToMindMapNode g x p l k)) = pairedContentOf x"
proof (induction x arbitrary: p l k)
  case (AIMapNode ttl subs prs cns qs)
  show ?case
  proof (cases subs)
    case None
    then show ?thesis by (simp add: Let_def emptyMetadata_def)
  next
    case (Some ss)
    have "map storedContentOf (fst (convertAIMapNodes g ss p' l' k')) = map pairedContentOf ss"
      for p' l' k'
      by (rule import_list_content) (simp add: AIMapNode.IH Some)
    with Some show ?thesis
      by (simp add: Let_def emptyMetadata_def split_beta)
  qed
qed

lemma pairedContentOf_wellPaired: "wellPaired x \<Longrightarrow> pairedContentOf x = contentOf x"
  by (induction x rule: wellPaired.induct) (auto simp: list_all_iff split: option.splits)

text \<open>
  C1 (as amended). For every AI-shape tree \<open>x\<close> of any depth, the node tree that import
  creates stores, and the export of that node tree carries, at every node: the title,
  the questions, and the pros and cons when the node has both. Pros without cons, or
  cons without pros, are not folded into the metadata and are absent after the round
  trip. Ids, \<open>isExpanded\<close> and \<open>tags\<close> are not part of the content.
\<close>

theorem export_import_content:
  "storedContentOf (fst (convertAIMapNodeToMindMapNode g x p l k)) = pairedContentOf x \<and>
   contentOf (convertMindMapNodeToAIMapNode (fst (convertAIMapNodeToMindMapNode g x p l k)))
     = pairedContentOf x \<and>
   (wellPaired x \<longrightarrow>
      contentOf (convertMindMapNodeToAIMapNode (fst (convertAIMapNodeToMindMapNode g x p l k)))
        = contentOf x)"
  by (simp add: export_content import_content pairedContentOf_wellPaired)

theorem export_import_content_witness:
  "wellPaired debateTopic \<and>
   contentOf (convertMindMapNodeToAIMapNode
      (fst (convertAIMapNodeToMindMapNode exampleUuid debateTopic None 0 0)))
     = contentOf debateTopic"
proof -
  have wp: "wellPaired debateTopic" by (simp add: debateTopic_def)
  with export_import_content [of exampleUuid debateTopic None 0 0] show ?thesis by blast
qed

text \<open>
  The claim as written fails at a node that has pros and no cons: import leaves the
  metadata empty, and the exported node has no pros.
\<close>

theorem export_import_lone_pros_counterexample:
  "contentOf (convertMindMapNodeToAIMapNode
      (fst (convertAIMapNodeToMindMapNode exampleUuid
              (AIMapNode ''Topic'' None (Some [''fast'']) None None) None 0 0)))
     \<noteq> contentOf (AIMapNode ''Topic'' None (Some [''fast'']) None None) \<and>
   metadata (fst (convertAIMapNodeToMindMapNode exampleUuid
              (AIMapNode ''Topic'' None (Some [''fast'']) None None) None 0 0))
     = Some emptyMetadata"
  by (simp add: Let_def emptyMetadata_def)

section \<open>Undo and redo\<close>

lemma slice0_nonneg: "0 \<le> e \<Longrightarrow> slice0 xs e = take (nat e) xs"
  by (simp add: slice0_def Let_def min_def)

lemma wellFormed_pushSnapshot: "wellFormed (pushSnapshot s F)"
  by (simp add: wellFormed_def pushSnapshot_def Let_def nth_append)

lemma mutating_pushes:
  "nodes s = Some F \<Longrightarrow> isMutating a \<Longrightarrow> \<exists>F'. mindMapReducer s a = Inr (pushSnapshot s F')"
  by (cases a) (auto simp: jsonDeepCopy_def)

lemma reducer_wellFormed:
  "wellFormed s \<Longrightarrow> mindMapReducer s a = Inr s' \<Longrightarrow> wellFormed s'"
proof (cases "isMutating a")
  case True
  assume wf: "wellFormed s" and step: "mindMapReducer s a = Inr s'"
  from wf obtain F where "nodes s = Some F" by (auto simp: wellFormed_def)
  from mutating_pushes [OF this True] step show ?thesis
    by (auto simp: wellFormed_pushSnapshot)
next
  case False
  assume wf: "wellFormed s" and step: "mindMapReducer s a = Inr s'"
  from False have "a = UNDO \<or> a = REDO" by (cases a) simp_all
  with wf step show ?thesis
    by (auto simp: wellFormed_def at_index_def Let_def max_def min_def)
qed

lemma reducer_emptyHistory:
  "emptyHistory s \<Longrightarrow> mindMapReducer s a = Inr s' \<Longrightarrow> emptyHistory s' \<or> wellFormed s'"
proof (cases "isMutating a")
  case True
  assume "emptyHistory s" and step: "mindMapReducer s a = Inr s'"
  from True step have "\<exists>F'. s' = pushSnapshot s F'"
    by (cases a) (auto simp: jsonDeepCopy_def split: option.splits)
  then show ?thesis by (auto simp: wellFormed_pushSnapshot)
next
  case False
  assume e: "emptyHistory s" and step: "mindMapReducer s a = Inr s'"
  from False have "a = UNDO \<or> a = REDO" by (cases a) simp_all
  with e step show ?thesis
    by (auto simp: emptyHistory_def Let_def)
qed

lemma reachable_invariant: "reachable s \<Longrightarrow> emptyHistory s \<or> wellFormed s"
proof (induction rule: reachable.induct)
  case reachable_initial
  show ?case by (simp add: emptyHistory_def initialState_def)
next
  case (reachable_step s a s')
  then show ?case using reducer_emptyHistory reducer_wellFormed by blast
qed

lemma reachable_wellFormed: "reachable s \<Longrightarrow> history s \<noteq> [] \<Longrightarrow> wellFormed s"
  using reachable_invariant by (auto simp: emptyHistory_def)

lemma undo_pushSnapshot:
  assumes "wellFormed s"
  shows "mindMapReducer (pushSnapshot s F) UNDO =
           Inr ((pushSnapshot s F)\<lparr>nodes := nodes s, historyPointer := historyPointer s\<rparr>)"
proof -
  let ?p = "historyPointer s"
  from assms have p: "0 \<le> ?p" "?p < int (length (history s))"
    and n: "nodes s = Some (history s ! nat ?p)"
    by (simp_all add: wellFormed_def)
  from p have len: "int (length (slice0 (history s) (?p + 1) @ [F])) = ?p + 2"
    by (simp add: slice0_nonneg)
  from p have nth: "(slice0 (history s) (?p + 1) @ [F]) ! nat ?p = history s ! nat ?p"
    by (simp add: slice0_nonneg nth_append nat_add_distrib)
  have ptr: "historyPointer (pushSnapshot s F) = ?p + 1"
    using len by (simp add: pushSnapshot_def Let_def)
  have hist: "history (pushSnapshot s F) = slice0 (history s) (?p + 1) @ [F]"
    by (simp add: pushSnapshot_def Let_def)
  from p have "at_index (history (pushSnapshot s F)) ?p = nodes s"
    unfolding hist at_index_def using len nth n by simp
  with p ptr show ?thesis by (simp add: Let_def max_def)
qed

lemma redo_after_undo_pushSnapshot:
  assumes "wellFormed s"
  shows "mindMapReducer ((pushSnapshot s F)\<lparr>nodes := nodes s, historyPointer := historyPointer s\<rparr>) REDO
           = Inr (pushSnapshot s F)"
proof -
  let ?p = "historyPointer s"
  from assms have p: "0 \<le> ?p" "?p < int (length (history s))"
    by (simp_all add: wellFormed_def)
  from p have len: "int (length (slice0 (history s) (?p + 1) @ [F])) = ?p + 2"
    by (simp add: slice0_nonneg)
  from p have "length (slice0 (history s) (?p + 1)) = nat (?p + 1)"
    by (simp add: slice0_nonneg)
  then have nth: "(slice0 (history s) (?p + 1) @ [F]) ! nat (?p + 1) = F"
    by (metis nth_append_length)
  have hist: "history (pushSnapshot s F) = slice0 (history s) (?p + 1) @ [F]"
    by (simp add: pushSnapshot_def Let_def)
  from p have "at_index (history (pushSnapshot s F)) (?p + 1) = Some F"
    unfolding hist at_index_def using len nth by simp
  moreover have "min (int (length (history (pushSnapshot s F))) - 1) (?p + 1) = ?p + 1"
    unfolding hist using len by simp
  ultimately show ?thesis
    using len by (simp add: Let_def pushSnapshot_def add.commute)
qed

lemma redo_pushSnapshot: "mindMapReducer (pushSnapshot s F) REDO = Inr (pushSnapshot s F)"
  by (simp add: pushSnapshot_def Let_def at_index_def nth_append)

lemma reachable_exampleStore: "reachable exampleStore"
proof -
  have 1: "mindMapReducer initialState (SET_NODES []) =
             Inr \<lparr>nodes = Some [], history = [[]], historyPointer = 0\<rparr>"
    by (simp add: initialState_def pushSnapshot_def slice0_def)
  have 2: "mindMapReducer \<lparr>nodes = Some [], history = [[]], historyPointer = 0\<rparr>
             (SET_NODES [nodeA]) = Inr exampleStore"
    by (simp add: exampleStore_def pushSnapshot_def slice0_def)
  from reachable_step [OF reachable_step [OF reachable_initial 1] 2] show ?thesis .
qed

lemma reachable_undoneStore: "reachable undoneStore"
proof -
  have "mindMapReducer exampleStore UNDO = Inr undoneStore"
    by (simp add: exampleStore_def undoneStore_def at_index_def)
  from reachable_step [OF reachable_exampleStore this] show ?thesis .
qed

text \<open>
  C3. In every state of the store that has at least one snapshot, every mutating action
  (\<open>SET_NODES\<close>, \<open>ADD_NODE\<close>, \<open>UPDATE_NODE_TEXT\<close>, \<open>DELETE_NODE\<close>, \<open>TOGGLE_EXPAND\<close>,
  \<open>UPDATE_NODE_METADATA\<close>) succeeds; \<open>UNDO\<close> after it gives back exactly the forest
  from before the action, and \<open>REDO\<close> after that \<open>UNDO\<close> gives back the state, hence
  the forest, that the action produced.
\<close>

theorem undo_redo_after_action:
  assumes "reachable S" and "history S \<noteq> []" and "isMutating a"
  shows "\<exists>S1 S2. mindMapReducer S a = Inr S1 \<and>
                 mindMapReducer S1 UNDO = Inr S2 \<and> nodes S2 = nodes S \<and>
                 mindMapReducer S2 REDO = Inr S1 \<and>
                 nodes S \<noteq> None \<and> nodes S1 \<noteq> None"
proof -
  from assms(1,2) have wf: "wellFormed S" by (rule reachable_wellFormed)
  then obtain F where F: "nodes S = Some F" by (auto simp: wellFormed_def)
  from mutating_pushes [OF F assms(3)]
  obtain F' where step: "mindMapReducer S a = Inr (pushSnapshot S F')" by blast
  let ?S1 = "pushSnapshot S F'"
  let ?S2 = "?S1\<lparr>nodes := nodes S, historyPointer := historyPointer S\<rparr>"
  have "mindMapReducer ?S1 UNDO = Inr ?S2" using wf by (rule undo_pushSnapshot)
  moreover have "mindMapReducer ?S2 REDO = Inr ?S1" using wf by (rule redo_after_undo_pushSnapshot)
  moreover have "nodes ?S2 = nodes S" by simp
  moreover have "nodes ?S1 \<noteq> None" by (simp add: pushSnapshot_def Let_def)
  ultimately show ?thesis using step F by blast
qed

theorem undo_redo_after_action_witness:
  "reachable exampleStore \<and> history exampleStore \<noteq> [] \<and> isMutating (DELETE_NODE ''b'') \<and>
   (\<exists>S1 S2. mindMapReducer exampleStore (DELETE_NODE ''b'') = Inr S1 \<and>
            mindMapReducer S1 UNDO = Inr S2 \<and> nodes S2 = nodes exampleStore \<and>
            mindMapReducer S2 REDO = Inr S1 \<and>
            nodes exampleStore \<noteq> None \<and> nodes S1 \<noteq> None)"
proof -
  have h: "history exampleStore \<noteq> []" by (simp add: exampleStore_def)
  have m: "isMutating (DELETE_NODE ''b'')" by simp
  from undo_redo_after_action [OF reachable_exampleStore h m] reachable_exampleStore h m
  show ?thesis by blast
qed

text \<open>
  C4. In every state of the store whose pointer is strictly below the last index of the
  history (as after one or more \<open>UNDO\<close>s), every mutating action keeps the history
  entries up to and including the pointer, appends the new forest as the last entry and
  points at it; a \<open>REDO\<close> after the action returns the same state.
\<close>

theorem action_after_undo_truncates:
  assumes "reachable S" and "historyPointer S < int (length (history S)) - 1"
    and "isMutating a"
  shows "\<exists>S1 F'. mindMapReducer S a = Inr S1 \<and> nodes S1 = Some F' \<and>
                 history S1 = take (nat (historyPointer S + 1)) (history S) @ [F'] \<and>
                 historyPointer S1 = int (length (history S1)) - 1 \<and>
                 mindMapReducer S1 REDO = Inr S1"
proof -
  from assms(1) have "emptyHistory S \<or> wellFormed S" by (rule reachable_invariant)
  with assms(2) have wf: "wellFormed S" by (auto simp: emptyHistory_def)
  then obtain F where F: "nodes S = Some F" by (auto simp: wellFormed_def)
  from mutating_pushes [OF F assms(3)]
  obtain F' where step: "mindMapReducer S a = Inr (pushSnapshot S F')" by blast
  from wf have "0 \<le> historyPointer S + 1" by (simp add: wellFormed_def)
  then have "history (pushSnapshot S F') = take (nat (historyPointer S + 1)) (history S) @ [F']"
    by (simp add: pushSnapshot_def Let_def slice0_nonneg)
  moreover have "nodes (pushSnapshot S F') = Some F'"
    by (simp add: pushSnapshot_def Let_def)
  moreover have "historyPointer (pushSnapshot S F') = int (length (history (pushSnapshot S F'))) - 1"
    by (simp add: pushSnapshot_def Let_def)
  ultimately show ?thesis using step redo_pushSnapshot by blast
qed

theorem action_after_undo_truncates_witness:
  "reachable undoneStore \<and> historyPointer undoneStore < int (length (history undoneStore)) - 1 \<and>
   isMutating (SET_NODES [leafC]) \<and>
   (\<exists>S1 F'. mindMapReducer undoneStore (SET_NODES [leafC]) = Inr S1 \<and> nodes S1 = Some F' \<and>
      history S1 = take (nat (historyPointer undoneStore + 1)) (history undoneStore) @ [F'] \<and>
      historyPointer S1 = int (length (history S1)) - 1 \<and>
      mindMapReducer S1 REDO = Inr S1)"
proof -
  have p: "historyPointer undoneStore < int (length (history undoneStore)) - 1"
    by (simp add: undoneStore_def)
  have m: "isMutating (SET_NODES [leafC])" by simp
  from action_after_undo_truncates [OF reachable_undoneStore p m] reachable_undoneStore p m
  show ?thesis by blast
qed

text \<open>
  C10. \<open>UNDO\<close> and \<open>REDO\<close> read \<open>history\<close> at the clamped pointer without testing
  that the history is non-empty. From every state with a non-empty history and a pointer
  that is a valid index, each yields a state whose pointer is a valid index and whose
  forest is the history entry at that pointer. In the initial state (empty history,
  pointer \<open>-1\<close>) the read is out of bounds, at index \<open>0\<close> for \<open>UNDO\<close> and \<open>-1\<close> for
  \<open>REDO\<close>, and the resulting state has no forest.
\<close>

theorem undo_redo_need_history:
  "(history S \<noteq> [] \<and> 0 \<le> historyPointer S \<and> historyPointer S < int (length (history S)) \<longrightarrow>
      (\<exists>S'. mindMapReducer S UNDO = Inr S' \<and>
             0 \<le> historyPointer S' \<and> historyPointer S' < int (length (history S')) \<and>
             nodes S' = Some (history S' ! nat (historyPointer S'))) \<and>
      (\<exists>S'. mindMapReducer S REDO = Inr S' \<and>
             0 \<le> historyPointer S' \<and> historyPointer S' < int (length (history S')) \<and>
             nodes S' = Some (history S' ! nat (historyPointer S')))) \<and>
   at_index (history initialState) (max 0 (historyPointer initialState - 1)) = None \<and>
   at_index (history initialState)
     (min (int (length (history initialState)) - 1) (historyPointer initialState + 1)) = None \<and>
   mindMapReducer initialState UNDO = Inr \<lparr>nodes = None, history = [], historyPointer = 0\<rparr> \<and>
   mindMapReducer initialState REDO = Inr \<lparr>nodes = None, history = [], historyPointer = - 1\<rparr>"
  by (auto simp: Let_def at_index_def initialState_def max_def min_def)

theorem undo_redo_need_history_witness:
  "history undoneStore \<noteq> [] \<and> 0 \<le> historyPointer undoneStore \<and>
   historyPointer undoneStore < int (length (history undoneStore)) \<and>
   (\<exists>S'. mindMapReducer undoneStore UNDO = Inr S' \<and>
          0 \<le> historyPointer S' \<and> historyPointer S' < int (length (history S')) \<and>
          nodes S' = Some (history S' ! nat (historyPointer S'))) \<and>
   (\<exists>S'. mindMapReducer undoneStore REDO = Inr S' \<and>
          0 \<le> historyPointer S' \<and> historyPointer S' < int (length (history S')) \<and>
          nodes S' = Some (history S' ! nat (historyPointer S')))"
proof -
  have h: "history undoneStore \<noteq> [] \<and> 0 \<le> historyPointer undoneStore \<and>
           historyPointer undoneStore < int (length (history undoneStore))"
    by (simp add: undoneStore_def)
  with undo_redo_need_history [of undoneStore] show ?thesis by blast
qed

section \<open>Deletion\<close>

declare entries.simps [simp del]

lemma entries_Nil [simp]: "entries anc [] = []"
  by (subst entries.simps) simp

lemma entries_Cons [simp]:
  "entries anc (n # ns) =
     (anc @ [node_id n], setChildren n []) # entries (anc @ [node_id n]) (children n)
       @ entries anc ns"
  unfolding entries.simps [of anc "n # ns"] entries.simps [of anc ns]
  by simp

lemma setChildren_twice [simp]: "setChildren (setChildren n cs) cs' = setChildren n cs'"
  by (cases n) simp

lemma entries_path: "(p, m) \<in> set (entries anc ns) \<Longrightarrow> set anc \<subseteq> set p"
proof (induction anc ns arbitrary: p m rule: entries.induct)
  case (1 anc ns)
  from "1.prems" obtain n where n: "n \<in> set ns"
    and pm: "(p, m) = (anc @ [node_id n], setChildren n []) \<or>
             (p, m) \<in> set (entries (anc @ [node_id n]) (children n))"
    by (subst (asm) entries.simps) auto
  from pm show ?case
  proof
    assume "(p, m) = (anc @ [node_id n], setChildren n [])"
    then show ?thesis by auto
  next
    assume "(p, m) \<in> set (entries (anc @ [node_id n]) (children n))"
    from "1.IH" [OF n this] show ?thesis by auto
  qed
qed

lemma deleteNodeRecursive_Nil [simp]: "deleteNodeRecursive [] t = []"
  by (subst deleteNodeRecursive.simps) simp

lemma deleteNodeRecursive_Cons [simp]:
  "deleteNodeRecursive (n # ns) t =
     (if node_id n = t then deleteNodeRecursive ns t
      else setChildren n (deleteNodeRecursive (children n) t) # deleteNodeRecursive ns t)"
  unfolding deleteNodeRecursive.simps [of "n # ns" t] deleteNodeRecursive.simps [of ns t]
  by simp

lemma entries_dropped:
  "t \<in> set anc \<Longrightarrow> filter (\<lambda>(p, m). t \<notin> set p) (entries anc ns) = []"
  using entries_path by (fastforce simp: filter_empty_conv)

lemma entries_delete:
  "t \<notin> set anc \<Longrightarrow>
     entries anc (deleteNodeRecursive ns t) = filter (\<lambda>(p, m). t \<notin> set p) (entries anc ns)"
proof (induction "size_list size ns" arbitrary: ns anc rule: less_induct)
  case less
  show ?case
  proof (cases ns)
    case Nil
    then show ?thesis by simp
  next
    case (Cons n rest)
    have rest: "entries anc (deleteNodeRecursive rest t)
                  = filter (\<lambda>(p, m). t \<notin> set p) (entries anc rest)"
      by (rule less.hyps) (simp_all add: Cons less.prems)
    show ?thesis
    proof (cases "node_id n = t")
      case True
      then have "filter (\<lambda>(p, m). t \<notin> set p) (entries (anc @ [node_id n]) (children n)) = []"
        by (simp add: entries_dropped)
      with True rest Cons show ?thesis by simp
    next
      case False
      have "size_list size (children n) < size_list size ns"
        using size_children [of n] Cons by simp
      moreover from False less.prems have "t \<notin> set (anc @ [node_id n])" by simp
      ultimately have "entries (anc @ [node_id n]) (deleteNodeRecursive (children n) t)
                  = filter (\<lambda>(p, m). t \<notin> set p) (entries (anc @ [node_id n]) (children n))"
        by (rule less.hyps)
      with False rest Cons less.prems show ?thesis by simp
    qed
  qed
qed

lemma findNodeById_NoneI:
  "(\<And>n. n \<in> set ns \<Longrightarrow> node_id n \<noteq> i \<and> findNodeById (children n) i = None)
     \<Longrightarrow> findNodeById ns i = None"
  by (induction ns) auto

lemma findNodeById_delete: "findNodeById (deleteNodeRecursive ns t) t = None"
proof (induction "size_list size ns" arbitrary: ns rule: less_induct)
  case less
  show ?case
  proof (cases ns)
    case Nil
    then show ?thesis by simp
  next
    case (Cons n rest)
    have rest: "findNodeById (deleteNodeRecursive rest t) t = None"
      by (rule less.hyps) (simp add: Cons)
    have "size_list size (children n) < size_list size ns"
      using size_children [of n] Cons by simp
    then have "findNodeById (deleteNodeRecursive (children n) t) t = None"
      by (rule less.hyps)
    with rest Cons show ?thesis by simp
  qed
qed

text \<open>
  C6. For every forest \<open>F\<close> and id (present in \<open>F\<close> or not), \<open>deleteNodeRecursive\<close>
  returns a forest in which the id is not found, and whose entries are the entries of
  \<open>F\<close> without those that have the id on their path: the nodes with that id and all
  their descendants are gone, and every other node is there with its fields, its
  ancestors and its place in the order unchanged.
\<close>

theorem delete_removes_subtree:
  "findNodeById (deleteNodeRecursive F i) i = None \<and>
   entries [] (deleteNodeRecursive F i) = filter (\<lambda>(path, n). i \<notin> set path) (entries [] F)"
  by (simp add: findNodeById_delete entries_delete)

theorem delete_removes_subtree_witness:
  "findNodeById [nodeA, leafC] ''a'' \<noteq> None \<and>
   findNodeById (deleteNodeRecursive [nodeA, leafC] ''a'') ''a'' = None \<and>
   entries [] (deleteNodeRecursive [nodeA, leafC] ''a'') = [([''c''], leafC)]"
  using delete_removes_subtree [of "[nodeA, leafC]" "''a''"]
  by (simp add: nodeA_def leafB_def leafC_def)

section \<open>Adding a node\<close>



lemma findNodeById_storeAtFound:
  "findNodeById F i = Some p \<Longrightarrow> node_id v = i \<Longrightarrow> findNodeById (storeAtFound F i v) i = Some v"
proof (induction F i v rule: storeAtFound.induct)
  case (1 i v)
  then show ?case by simp
next
  case (2 node rest i v)
  show ?case
  proof (cases "node_id node = i")
    case True
    with "2.prems" show ?thesis by simp
  next
    case False
    show ?thesis
    proof (cases "findNodeById (children node) i")
      case None
      with False "2.prems" have "findNodeById rest i = Some p" by simp
      from "2.IH"(1) [OF False None this "2.prems"(2)] False None show ?thesis by simp
    next
      case (Some found)
      with False "2.prems" have "findNodeById (children node) i = Some p" by simp
      from "2.IH"(2) [OF False Some this "2.prems"(2)] False Some show ?thesis by simp
    qed
  qed
qed

lemma findNodeById_Some_id: "findNodeById F i = Some p \<Longrightarrow> node_id p = i"
  by (induction F i rule: findNodeById.induct) (auto split: if_splits option.splits)

lemma node_id_setIsExpanded [simp]: "node_id (setIsExpanded n e) = node_id n"
  by (cases n) simp



section \<open>Node types\<close>

declare idTypes.simps [simp del]

lemma forest_induct [case_names Nil Cons]:
  assumes "P []" and "\<And>n rest. P (children n) \<Longrightarrow> P rest \<Longrightarrow> P (n # rest)"
  shows "P ns"
proof (induction "size_list size ns" arbitrary: ns rule: less_induct)
  case less
  show ?case
  proof (cases ns)
    case Nil
    with assms(1) show ?thesis by simp
  next
    case (Cons n rest)
    have "size_list size (children n) < size_list size ns"
      using size_children [of n] Cons by simp
    then have "P (children n)" by (rule less.hyps)
    moreover have "P rest" by (rule less.hyps) (simp add: Cons)
    ultimately show ?thesis using assms(2) Cons by simp
  qed
qed

lemma idTypes_Nil [simp]: "idTypes [] = []"
  by (subst idTypes.simps) simp

lemma idTypes_Cons [simp]:
  "idTypes (n # ns) = (node_id n, node_type n) # idTypes (children n) @ idTypes ns"
  unfolding idTypes.simps [of "n # ns"] idTypes.simps [of ns] by simp

lemma updateNodeRecursive_Nil [simp]: "updateNodeRecursive [] t f = []"
  by (subst updateNodeRecursive.simps) simp

lemma updateNodeRecursive_Cons [simp]:
  "updateNodeRecursive (n # ns) t f =
     (if node_id n = t then f n else setChildren n (updateNodeRecursive (children n) t f))
       # updateNodeRecursive ns t f"
  unfolding updateNodeRecursive.simps [of "n # ns" t f] updateNodeRecursive.simps [of ns t f]
  by simp

lemma node_type_setChildren [simp]: "node_type (setChildren n cs) = node_type n"
  by (cases n) simp

lemma idTypes_update:
  "keepsIdentity f \<Longrightarrow> idTypes (updateNodeRecursive ns t f) = idTypes ns"
  by (induction ns rule: forest_induct) (simp_all add: keepsIdentity_def)

lemma idTypes_delete: "set (idTypes (deleteNodeRecursive ns t)) \<subseteq> set (idTypes ns)"
  by (induction ns rule: forest_induct) auto

lemma idTypes_found: "findNodeById ns i = Some p \<Longrightarrow> set (idTypes [p]) \<subseteq> set (idTypes ns)"
proof (induction ns rule: forest_induct)
  case Nil
  then show ?case by simp
next
  case (Cons n rest)
  then show ?case by (auto split: if_splits option.splits)
qed

lemma idTypes_storeAtFound:
  "set (idTypes (storeAtFound ns i v)) \<subseteq> set (idTypes ns) \<union> set (idTypes [v])"
proof (induction ns rule: forest_induct)
  case Nil
  then show ?case by simp
next
  case (Cons n rest)
  then show ?case by (auto split: option.splits)
qed

lemma keepsIdentity_setText: "keepsIdentity (\<lambda>node. setText node tx)"
  unfolding keepsIdentity_def
proof
  fix n show "node_id (setText n tx) = node_id n \<and> node_type (setText n tx) = node_type n \<and>
          children (setText n tx) = children n" by (cases n) simp
qed

lemma keepsIdentity_toggle: "keepsIdentity (\<lambda>node. setIsExpanded node (\<not> isExpanded node))"
  unfolding keepsIdentity_def
proof
  fix n show "node_id (setIsExpanded n (\<not> isExpanded n)) = node_id n \<and>
          node_type (setIsExpanded n (\<not> isExpanded n)) = node_type n \<and>
          children (setIsExpanded n (\<not> isExpanded n)) = children n" by (cases n) simp
qed

lemma keepsIdentity_metadata: "keepsIdentity (updateMetadataFn patch st)"
  unfolding keepsIdentity_def
proof
  fix n show "node_id (updateMetadataFn patch st n) = node_id n \<and>
          node_type (updateMetadataFn patch st n) = node_type n \<and>
          children (updateMetadataFn patch st n) = children n"
    by (cases n) (simp add: updateMetadataFn_def Let_def split: option.splits)
qed

lemma idTypes_append [simp]: "idTypes (xs @ ys) = idTypes xs @ idTypes ys"
  by (induction xs) simp_all

lemma import_list_typed:
  assumes "\<And>a p l k. a \<in> set xs \<Longrightarrow>
             typedByDepth l (fst (convertAIMapNodeToMindMapNode g a p l k))"
  shows "list_all (typedByDepth l) (fst (convertAIMapNodes g xs p l k))"
  using assms
proof (induction xs arbitrary: k)
  case Nil
  then show ?case by simp
next
  case (Cons a as)
  have hd: "typedByDepth l (fst (convertAIMapNodeToMindMapNode g a p l k))"
    by (rule Cons.prems) simp
  have tl: "list_all (typedByDepth l) (fst (convertAIMapNodes g as p l k'))" for k'
    by (rule Cons.IH) (simp add: Cons.prems)
  from hd tl show ?case
    by (simp add: split_beta Let_def)
qed

lemma import_typed:
  "typedByDepth l (fst (convertAIMapNodeToMindMapNode g x p l k))"
proof (induction x arbitrary: p l k)
  case (AIMapNode ttl subs prs cns qs)
  show ?case
  proof (cases subs)
    case None
    then show ?thesis by (simp add: Let_def typeForDepth_def)
  next
    case (Some ss)
    have "list_all (typedByDepth l') (fst (convertAIMapNodes g ss p' l' k'))" for p' l' k'
      by (rule import_list_typed) (simp add: AIMapNode.IH Some)
    from this [of "Suc l"] Some show ?thesis
      by (simp add: Let_def typeForDepth_def split_beta)
  qed
qed

lemma import_forest_typed:
  "list_all (typedByDepth l) (fst (convertAIMapNodes g xs p l k))"
  by (rule import_list_typed) (rule import_typed)

lemma idTypes_withNewChild:
  "idTypes [withNewChild p n] = (node_id p, node_type p) # idTypes (children p) @ idTypes [n]"
  by (cases p) (simp add: withNewChild_def)

lemma add_child_found:
  assumes "nodes (mindMapState sess) = Some F" and "findNodeById F pid = Some parent"
  shows "\<exists>sess' F'. handleAddChild g sess pid = Inr sess' \<and>
           nodes (mindMapState sess') = Some F' \<and>
           findNodeById F' pid =
             Some (withNewChild parent
                    (MindMapNode (g (nextUuid sess)) ''New Idea'' [] (Some pid) True
                       DETAIL [] None None))"
proof -
  let ?n = "MindMapNode (g (nextUuid sess)) ''New Idea'' [] (Some pid) True DETAIL [] None None"
  let ?v = "withNewChild parent ?n"
  from assms(2) have "node_id parent = pid" by (rule findNodeById_Some_id)
  then have "node_id ?v = pid" by (simp add: withNewChild_def)
  with assms(2) have "findNodeById (storeAtFound F pid ?v) pid = Some ?v"
    by (rule findNodeById_storeAtFound)
  with assms show ?thesis
    by (simp add: handleAddChild_def dispatch_def jsonDeepCopy_def withNewChild_def
                  pushSnapshot_def Let_def)
qed

lemma reducer_keeps_types:
  assumes "isMutating a" and "nodes S = Some F" and "mindMapReducer S a = Inr S'"
  shows "\<exists>F'. nodes S' = Some F' \<and>
              set (idTypes F') \<subseteq> set (idTypes F) \<union> set (idTypes (createdBy a))"
proof (cases a)
  case (SET_NODES payload)
  with assms show ?thesis by (auto simp: pushSnapshot_def Let_def)
next
  case (ADD_NODE parent newNode)
  show ?thesis
  proof (cases parent)
    case None
    with ADD_NODE assms show ?thesis
      by (auto simp: pushSnapshot_def Let_def jsonDeepCopy_def)
  next
    case (Some pid)
    show ?thesis
    proof (cases "findNodeById F pid")
      case None
      with Some ADD_NODE assms show ?thesis
        by (auto simp: pushSnapshot_def Let_def jsonDeepCopy_def)
    next
      case (Some parentNode)
      let ?v = "withNewChild parentNode newNode"
      have "set (idTypes (storeAtFound F pid ?v)) \<subseteq> set (idTypes F) \<union> set (idTypes [?v])"
        by (rule idTypes_storeAtFound)
      moreover have "set (idTypes [?v]) \<subseteq> set (idTypes [parentNode]) \<union> set (idTypes [newNode])"
        by (subst idTypes_withNewChild) auto
      moreover have "set (idTypes [parentNode]) \<subseteq> set (idTypes F)"
        using Some by (rule idTypes_found)
      ultimately have "set (idTypes (storeAtFound F pid ?v))
                         \<subseteq> set (idTypes F) \<union> set (idTypes [newNode])"
        by blast
      moreover have "nodes S' = Some (storeAtFound F pid ?v)"
        using assms ADD_NODE \<open>parent = Some pid\<close> Some
        by (auto simp: pushSnapshot_def Let_def jsonDeepCopy_def withNewChild_def)
      ultimately show ?thesis using ADD_NODE by simp
    qed
  qed
next
  case (UPDATE_NODE_TEXT nodeId newText)
  with assms idTypes_update [OF keepsIdentity_setText] show ?thesis
    by (auto simp: pushSnapshot_def Let_def)
next
  case (DELETE_NODE nodeId)
  with assms idTypes_delete show ?thesis
    by (auto simp: pushSnapshot_def Let_def)
next
  case (TOGGLE_EXPAND nodeId)
  with assms idTypes_update [OF keepsIdentity_toggle] show ?thesis
    by (auto simp: pushSnapshot_def Let_def)
next
  case (UPDATE_NODE_METADATA nodeId patch st)
  with assms idTypes_update [OF keepsIdentity_metadata] show ?thesis
    by (auto simp: pushSnapshot_def Let_def)
next
  case UNDO
  with assms show ?thesis by simp
next
  case REDO
  with assms show ?thesis by simp
qed

text \<open>
  C2 (as amended). A node that import creates gets its type from its depth (\<open>0\<close> gives
  \<open>MAIN_TOPIC\<close>, \<open>1\<close> gives \<open>SUB_TOPIC\<close>, \<open>2\<close> and more give \<open>DETAIL\<close>), all the way
  down. A node that the add-child action creates has type \<open>DETAIL\<close> whatever the depth
  of its parent. No mutating action of the reducer changes a type: every id and type
  in the new forest is one of the old forest or of a node the action brings in.
\<close>

theorem node_types_at_creation:
  "typedByDepth level (fst (convertAIMapNodeToMindMapNode g x p level k)) \<and>
   (\<forall>F parent. nodes (mindMapState sess) = Some F \<and> findNodeById F pid = Some parent \<longrightarrow>
      (\<exists>sess' F'. handleAddChild g sess pid = Inr sess' \<and>
           nodes (mindMapState sess') = Some F' \<and>
           findNodeById F' pid =
             Some (withNewChild parent
                    (MindMapNode (g (nextUuid sess)) ''New Idea'' [] (Some pid) True
                       DETAIL [] None None)))) \<and>
   (\<forall>S F S'. isMutating a \<and> nodes S = Some F \<and> mindMapReducer S a = Inr S' \<longrightarrow>
      (\<exists>F'. nodes S' = Some F' \<and>
            set (idTypes F') \<subseteq> set (idTypes F) \<union> set (idTypes (createdBy a))))"
  using import_typed add_child_found reducer_keeps_types by blast

theorem node_types_at_creation_witness:
  "typedByDepth 0 (fst (convertAIMapNodeToMindMapNode exampleUuid debateTopic None 0 0)) \<and>
   nodes (mindMapState sessionC) = Some [leafC] \<and> findNodeById [leafC] ''c'' = Some leafC \<and>
   (\<exists>sess' F'. handleAddChild exampleUuid sessionC ''c'' = Inr sess' \<and>
        nodes (mindMapState sess') = Some F' \<and>
        findNodeById F' ''c'' =
          Some (withNewChild leafC
                 (MindMapNode (exampleUuid (nextUuid sessionC)) ''New Idea'' [] (Some ''c'') True
                    DETAIL [] None None))) \<and>
   isMutating (TOGGLE_EXPAND ''c'') \<and>
   mindMapReducer (mindMapState sessionC) (TOGGLE_EXPAND ''c'')
     = Inr (pushSnapshot (mindMapState sessionC)
             [MindMapNode ''c'' ''C'' [] None False MAIN_TOPIC [] None None]) \<and>
   (\<exists>F'. nodes (pushSnapshot (mindMapState sessionC)
                  [MindMapNode ''c'' ''C'' [] None False MAIN_TOPIC [] None None]) = Some F' \<and>
         set (idTypes F') \<subseteq> set (idTypes [leafC]) \<union> set (idTypes (createdBy (TOGGLE_EXPAND ''c''))))"
proof -
  have n: "nodes (mindMapState sessionC) = Some [leafC]" by (simp add: sessionC_def)
  have f: "findNodeById [leafC] ''c'' = Some leafC" by (simp add: leafC_def)
  have m: "isMutating (TOGGLE_EXPAND ''c'')" by simp
  have r: "mindMapReducer (mindMapState sessionC) (TOGGLE_EXPAND ''c'')
     = Inr (pushSnapshot (mindMapState sessionC)
             [MindMapNode ''c'' ''C'' [] None False MAIN_TOPIC [] None None])"
    by (simp add: sessionC_def leafC_def)
  from node_types_at_creation
         [of 0 exampleUuid debateTopic None 0 sessionC "''c''" "TOGGLE_EXPAND ''c''"] n f m r
  show ?thesis by blast
qed

text \<open>
  The claim as written fails for the add-child action: a child added to a root is at
  depth \<open>1\<close> and gets \<open>DETAIL\<close>, not \<open>SUB_TOPIC\<close>.
\<close>

theorem add_child_type_counterexample:
  "typedByDepth 0 leafC \<and>
   (case handleAddChild exampleUuid sessionC ''c'' of
      Inl e \<Rightarrow> None
    | Inr sess' \<Rightarrow> nodes (mindMapState sess'))
     = Some [MindMapNode ''c'' ''C''
               [MindMapNode ''id'' ''New Idea'' [] (Some ''c'') True DETAIL [] None None]
               None True MAIN_TOPIC [] None None] \<and>
   \<not> typedByDepth 0
       (MindMapNode ''c'' ''C''
          [MindMapNode ''id'' ''New Idea'' [] (Some ''c'') True DETAIL [] None None]
          None True MAIN_TOPIC [] None None)"
  by (simp add: handleAddChild_def dispatch_def sessionC_def leafC_def jsonDeepCopy_def
                pushSnapshot_def typeForDepth_def exampleUuid_def Let_def)

section \<open>Selection and deletion\<close>

text \<open>
  C9. Deleting an ancestor of the selected node: the reducer removes the ancestor and,
  with it, the selected node, and the handler leaves the selection on the removed node
  because it compares the selected node's own id with the deleted id.
\<close>

theorem delete_ancestor_keeps_selection:
  "selectedNode sessionAB = Some leafB \<and>
   findNodeById [nodeA] ''b'' = Some leafB \<and>
   (case handleDeleteNode sessionAB ''a'' of
      Inl e \<Rightarrow> None
    | Inr sess' \<Rightarrow> Some (nodes (mindMapState sess'), selectedNode sess'))
     = Some (Some [], Some leafB)"
  by (simp add: handleDeleteNode_def dispatch_def sessionAB_def exampleStore_def
                nodeA_def leafB_def pushSnapshot_def)

lemma delete_selected_clears_selection:
  assumes "selectedNode sess = Some n" and "nodes (mindMapState sess) = Some F"
  shows "\<exists>sess'. handleDeleteNode sess (node_id n) = Inr sess' \<and> selectedNode sess' = None"
  using assms by (simp add: handleDeleteNode_def dispatch_def)

section \<open>Malformed responses of the AI service\<close>














end
